theory Spec2Isabelle
  imports Main
begin

section \<open>Python text operations used by the two servers\<close>

text \<open>
  A Python \<open>str\<close> is modelled as a \<open>string\<close>: each \<open>char\<close> stands for the code point
  with the same number, so the model covers the texts whose code points are below 256.
  The request handled by either server is the text obtained by decoding one
  \<open>recv(1024)\<close>; it is the input of the model.  Byte strings (the upstream response,
  the contents of a cache file) are \<open>string\<close>s as well, one \<open>char\<close> per byte.
\<close>

definition is_space :: "char \<Rightarrow> bool" where
  \<comment> \<open>\<open>str.isspace\<close> on one character: the separators of \<open>str.split()\<close>.\<close>
  "is_space c = (c \<in> set [CHR 0x09, CHR 0x0A, CHR 0x0B, CHR 0x0C, CHR 0x0D,
                           CHR 0x1C, CHR 0x1D, CHR 0x1E, CHR 0x1F, CHR 0x20,
                           CHR 0x85, CHR 0xA0])"

definition is_linebreak :: "char \<Rightarrow> bool" where
  \<comment> \<open>The line boundaries of \<open>str.splitlines()\<close>.\<close>
  "is_linebreak c = (c \<in> set [CHR 0x0A, CHR 0x0B, CHR 0x0C, CHR 0x0D,
                               CHR 0x1C, CHR 0x1D, CHR 0x1E, CHR 0x85])"

definition is_digit :: "char \<Rightarrow> bool" where
  "is_digit c = (c \<in> set ''0123456789'')"

definition digit_val :: "char \<Rightarrow> int" where
  "digit_val c = of_char c - 48"

fun splitlines_from :: "string \<Rightarrow> string \<Rightarrow> string list" where
  \<comment> \<open>\<open>cur\<close> is the line read so far; a carriage return followed by a line feed is one
      boundary; a last line without characters is not reported.\<close>
  "splitlines_from cur [] = (if cur = [] then [] else [cur])"
| "splitlines_from cur (c # cs) =
     (if c = CHR 0x0D then
        (case cs of
           [] \<Rightarrow> [cur]
         | d # ds \<Rightarrow> if d = CHR 0x0A then cur # splitlines_from [] ds
                     else cur # splitlines_from [] (d # ds))
      else if is_linebreak c then cur # splitlines_from [] cs
      else splitlines_from (cur @ [c]) cs)"

definition splitlines :: "string \<Rightarrow> string list" where
  "splitlines s = splitlines_from [] s"

fun split_from :: "string \<Rightarrow> string \<Rightarrow> string list" where
  \<comment> \<open>\<open>str.split()\<close> without arguments: runs of whitespace separate the tokens and
      no token is empty.\<close>
  "split_from cur [] = (if cur = [] then [] else [cur])"
| "split_from cur (c # cs) =
     (if is_space c then (if cur = [] then split_from [] cs else cur # split_from [] cs)
      else split_from (cur @ [c]) cs)"

definition split :: "string \<Rightarrow> string list" where
  "split s = split_from [] s"

definition startswith :: "string \<Rightarrow> string \<Rightarrow> bool" where
  "startswith s p = (take (length p) s = p)"

fun find_from :: "nat \<Rightarrow> char \<Rightarrow> string \<Rightarrow> int" where
  "find_from i x [] = -1"
| "find_from i x (c # cs) = (if c = x then int i else find_from (Suc i) x cs)"

definition find :: "string \<Rightarrow> char \<Rightarrow> int" where
  \<comment> \<open>\<open>s.find(x)\<close>: the index of the first \<open>x\<close>, or \<open>-1\<close>.\<close>
  "find s x = find_from 0 x s"

definition slice_from :: "string \<Rightarrow> int \<Rightarrow> string" where
  \<comment> \<open>\<open>s[i:]\<close>; a negative \<open>i\<close> counts from the end.\<close>
  "slice_from s i =
     (if i < 0 then drop (nat (max 0 (int (length s) + i))) s else drop (nat i) s)"

definition replace_char :: "char \<Rightarrow> char \<Rightarrow> string \<Rightarrow> string" where
  "replace_char x y s = map (\<lambda>c. if c = x then y else c) s"

definition is_int_space :: "char \<Rightarrow> bool" where
  \<comment> \<open>The whitespace that \<open>int()\<close> skips around a literal: the separators U+001C to
      U+001F are not part of it.\<close>
  "is_int_space c = (c \<in> set [CHR 0x09, CHR 0x0A, CHR 0x0B, CHR 0x0C, CHR 0x0D, CHR 0x20,
                               CHR 0x85, CHR 0xA0])"

definition strip :: "string \<Rightarrow> string" where
  \<comment> \<open>What \<open>int()\<close> removes at both ends of its argument.\<close>
  "strip s = rev (dropWhile is_int_space (rev (dropWhile is_int_space s)))"

definition lstrip_char :: "char \<Rightarrow> string \<Rightarrow> string" where
  "lstrip_char x s = dropWhile (\<lambda>c. c = x) s"

fun int_digits :: "bool \<Rightarrow> int \<Rightarrow> string \<Rightarrow> int option" where
  \<comment> \<open>The digits of an integer literal of base 10, with single underscores allowed
      between digits.  The flag says that a digit must come next.\<close>
  "int_digits need acc [] = (if need then None else Some acc)"
| "int_digits need acc (c # cs) =
     (if is_digit c then int_digits False (10 * acc + digit_val c) cs
      else if c = CHR ''_'' \<and> \<not> need then int_digits True acc cs
      else None)"

definition py_int :: "string \<Rightarrow> int option" where
  \<comment> \<open>\<open>int(s)\<close>: \<open>None\<close> stands for \<open>ValueError\<close>.\<close>
  "py_int s =
     (let t = strip s in
      case t of
        [] \<Rightarrow> None
      | c # cs \<Rightarrow>
          if c = CHR ''-'' then map_option uminus (int_digits True 0 cs)
          else if c = CHR ''+'' then int_digits True 0 cs
          else int_digits True 0 t)"

function digits_of :: "int \<Rightarrow> string" where
  \<comment> \<open>The decimal digits of a non-negative integer.\<close>
  "digits_of n =
     (if n < 10 then [char_of (48 + n)] else digits_of (n div 10) @ [char_of (48 + n mod 10)])"
  by pat_completeness auto
termination
  by (relation "measure nat") auto

declare digits_of.simps [simp del]

definition py_str :: "int \<Rightarrow> string" where
  \<comment> \<open>\<open>str(n)\<close> for an integer.\<close>
  "py_str n = (if n < 0 then CHR ''-'' # digits_of (- n) else digits_of n)"

definition CRLF :: string where
  "CRLF = [CHR 0x0D, CHR 0x0A]"

definition path_join :: "string \<Rightarrow> string \<Rightarrow> string" where
  \<comment> \<open>\<open>os.path.join(a, b)\<close> on a POSIX system.\<close>
  "path_join a b =
     (if startswith b ''/'' then b
      else if a = [] \<or> last a = CHR ''/'' then a @ b
      else a @ ''/'' @ b)"

section \<open>The dictionary of the cache\<close>

text \<open>
  A Python \<open>dict\<close> keeps its keys in the order of their insertion: assigning to a key
  that is present replaces the value where the key stands, assigning to an absent key
  appends it, and iteration starts at the oldest key.  The model is an association list
  in that order.
\<close>

fun dict_set :: "('k \<times> 'v) list \<Rightarrow> 'k \<Rightarrow> 'v \<Rightarrow> ('k \<times> 'v) list" where
  \<comment> \<open>\<open>d[k] = v\<close>\<close>
  "dict_set [] k v = [(k, v)]"
| "dict_set ((k', v') # d) k v =
     (if k' = k then (k', v) # d else (k', v') # dict_set d k v)"

definition dict_get :: "('k \<times> 'v) list \<Rightarrow> 'k \<Rightarrow> 'v option" where
  \<comment> \<open>\<open>d[k]\<close>, with \<open>None\<close> where \<open>k in d\<close> is false.\<close>
  "dict_get d k = map_of d k"

definition dict_del :: "('k \<times> 'v) list \<Rightarrow> 'k \<Rightarrow> ('k \<times> 'v) list" where
  \<comment> \<open>\<open>del d[k]\<close> for a key that is present.\<close>
  "dict_del d k = filter (\<lambda>p. fst p \<noteq> k) d"

definition keys :: "('k \<times> 'v) list \<Rightarrow> 'k list" where
  "keys d = map fst d"

section \<open>The proxy server\<close>

text \<open>
  The state is the \<open>ProxyServer\<close> object together with the files of the file system
  it writes (a map from a path to the bytes of the file).
\<close>

record proxy =
  web_server_host :: string
  web_server_port :: int
  cache :: "(string \<times> string) list"
  files :: "string \<rightharpoonup> string"

definition CACHE_DIR :: string where
  "CACHE_DIR = ''proxy_cache''"

definition CACHE_SIZE_LIMIT :: nat where
  "CACHE_SIZE_LIMIT = 10"

definition ProxyServer_init :: "string \<Rightarrow> int \<Rightarrow> (string \<rightharpoonup> string) \<Rightarrow> proxy" where
  \<comment> \<open>\<open>__init__\<close>: the cache starts empty, whatever files the directory holds.\<close>
  "ProxyServer_init h p fs = \<lparr>web_server_host = h, web_server_port = p, cache = [], files = fs\<rparr>"

definition cache_key :: "string \<Rightarrow> string" where
  "cache_key uri = replace_char CHR ''/'' CHR ''_'' uri"

definition is_cache_full :: "proxy \<Rightarrow> bool" where
  "is_cache_full s = (length (cache s) \<ge> CACHE_SIZE_LIMIT)"

definition evict_cache :: "proxy \<Rightarrow> proxy" where
  \<comment> \<open>The oldest key is the first key of the dictionary, and the name looked up at it
      is the name bound to it.\<close>
  "evict_cache s =
     (case cache s of
        [] \<Rightarrow> s
      | (oldest_key, name) # _ \<Rightarrow>
          let filepath = path_join CACHE_DIR name;
              fs = (if filepath \<in> dom (files s) then (files s)(filepath := None) else files s)
          in s\<lparr>cache := dict_del (cache s) oldest_key, files := fs\<rparr>)"

text \<open>
  What the environment does during one request: the answer of the upstream server to
  the forwarded request, and whether a cache file can be opened for writing.
\<close>

datatype upstream_outcome =
    Refused          \<comment> \<open>\<open>connect\<close> raises \<open>ConnectionRefusedError\<close>\<close>
  | Failed           \<comment> \<open>\<open>connect\<close>, \<open>sendall\<close> or \<open>recv\<close> raises another \<open>OSError\<close>\<close>
  | Response string  \<comment> \<open>the bytes returned by \<open>recv(4096)\<close>\<close>

record env =
  upstream :: "string \<Rightarrow> upstream_outcome"
  writable :: "string \<Rightarrow> bool"

datatype exn = ValueError | OSError

text \<open>
  What one call of \<open>handle_client\<close> does towards the outside: the bytes sent to the
  client (if any), the exception that leaves the handler (if any), and whether a
  connection to the upstream server was attempted.
\<close>

record result =
  sent :: "string option"
  raised :: "exn option"
  contacted :: bool

definition send_response :: "int \<Rightarrow> string \<Rightarrow> string \<Rightarrow> string" where
  "send_response status_code reason content =
     (let response_line = ''HTTP/1.1 '' @ py_str status_code @ '' '' @ reason @ CRLF;
          headers = ''Content-Type: text/html'' @ CRLF
                    @ ''Content-Length: '' @ py_str (int (length content)) @ CRLF @ CRLF
      in response_line @ headers @ content)"

definition respond :: "int \<Rightarrow> string \<Rightarrow> result" where
  \<comment> \<open>A locally generated response with an empty body, sent before upstream is contacted.\<close>
  "respond status_code reason =
     \<lparr>sent = Some (send_response status_code reason []), raised = None, contacted = False\<rparr>"

definition strip_scheme :: "string \<Rightarrow> string" where
  \<comment> \<open>Lines 73 to 75 of \<open>handle_client\<close>.\<close>
  "strip_scheme uri =
     (if startswith uri ''http://'' then
        (let uri1 = slice_from uri (int (length ''http://''))
         in slice_from uri1 (find uri1 CHR ''/''))
      else uri)"

definition cached_odd :: "proxy \<Rightarrow> string \<Rightarrow> bool" where
  \<comment> \<open>Lines 87 to 90: the key is in the cache and the length of its value is odd.\<close>
  "cached_odd s uri =
     (case dict_get (cache s) uri of
        None \<Rightarrow> False
      | Some name \<Rightarrow> length name mod 2 = 1)"

definition web_request :: "proxy \<Rightarrow> string \<Rightarrow> string \<Rightarrow> string" where
  "web_request s uri version =
     ''GET '' @ uri @ '' '' @ version @ CRLF
     @ ''Host: '' @ web_server_host s @ '':'' @ py_str (web_server_port s) @ CRLF @ CRLF"

definition store :: "string \<Rightarrow> string \<Rightarrow> proxy \<Rightarrow> proxy" where
  \<comment> \<open>Lines 122 to 124: write the file, then record the name under the URI.\<close>
  "store uri response s =
     s\<lparr>files := (files s)(path_join CACHE_DIR (cache_key uri) \<mapsto> response),
       cache := dict_set (cache s) uri (cache_key uri)\<rparr>"

definition forward :: "env \<Rightarrow> string \<Rightarrow> string \<Rightarrow> proxy \<Rightarrow> result \<times> proxy" where
  \<comment> \<open>Lines 107 to 130.\<close>
  "forward e uri version s =
     (case upstream e (web_request s uri version) of
        Refused \<Rightarrow>
          (\<lparr>sent = Some (send_response 404 ''Not Found'' []), raised = None, contacted = True\<rparr>, s)
      | Failed \<Rightarrow> (\<lparr>sent = None, raised = Some OSError, contacted = True\<rparr>, s)
      | Response response \<Rightarrow>
          let s1 = (if is_cache_full s then evict_cache s else s) in
          if \<not> writable e (path_join CACHE_DIR (cache_key uri))
          then (\<lparr>sent = None, raised = Some OSError, contacted = True\<rparr>, s1)
          else (\<lparr>sent = Some response, raised = None, contacted = True\<rparr>,
                store uri response s1))"

definition ProxyServer_handle_client :: "env \<Rightarrow> string \<Rightarrow> proxy \<Rightarrow> result \<times> proxy" where
  "ProxyServer_handle_client e request s =
     (case splitlines request of
        [] \<Rightarrow> (\<lparr>sent = None, raised = None, contacted = False\<rparr>, s)
      | request_line # _ \<Rightarrow>
          let parts = split request_line in
          if length parts < 3 then (respond 400 ''Bad Request'', s)
          else
            (case parts of
               [method, uri0, version] \<Rightarrow>
                 if method \<noteq> ''GET'' then (respond 501 ''Not Implemented'', s)
                 else
                   let uri = strip_scheme uri0 in
                   if \<not> startswith uri ''/'' then (respond 400 ''Bad Request'', s)
                   else if cached_odd s uri then (respond 304 ''Not Modified'', s)
                   else
                     (case py_int (slice_from uri 1) of
                        None \<Rightarrow> (respond 400 ''Bad Request'', s)
                      | Some size' \<Rightarrow>
                          if size' > 9999 then (respond 414 ''Request-URI Too Long'', s)
                          else forward e uri version s)
             | _ \<Rightarrow> (\<lparr>sent = None, raised = Some ValueError, contacted = False\<rparr>, s)))"

fun run :: "proxy \<Rightarrow> (env \<times> string) list \<Rightarrow> proxy" where
  \<comment> \<open>Requests handled one after the other, each with what the environment does then.\<close>
  "run s [] = s"
| "run s ((e, request) # rest) = run (snd (ProxyServer_handle_client e request s)) rest"

section \<open>The upstream web server\<close>

record wresult =
  wsent :: "string option"
  wraised :: "exn option"

definition wsend :: "string \<Rightarrow> wresult" where
  "wsend r = \<lparr>wsent = Some r, wraised = None\<rparr>"

definition WebServer_handle_client :: "string \<Rightarrow> wresult" where
  "WebServer_handle_client request =
     (case splitlines request of
        [] \<Rightarrow> \<lparr>wsent = None, wraised = None\<rparr>
      | request_line # _ \<Rightarrow>
          (case split request_line of
             [method, uri, version] \<Rightarrow>
               if method \<noteq> ''GET'' then wsend (''HTTP/1.1 501 Not Implemented'' @ CRLF @ CRLF)
               else
                 (case py_int (lstrip_char CHR ''/'' uri) of
                    None \<Rightarrow> wsend (''HTTP/1.1 400 Bad Request'' @ CRLF @ CRLF)
                  | Some size' \<Rightarrow>
                      if size' < 100 \<or> size' > 20000
                      then wsend (''HTTP/1.1 400 Bad Request'' @ CRLF @ CRLF)
                      else
                        let content = ''<HTML><BODY>'' @ replicate (nat (size' - 26)) CHR ''a''
                                      @ ''</BODY></HTML>'';
                            response = ''HTTP/1.1 200 OK'' @ CRLF @ ''Content-Type: text/html'' @ CRLF
                                       @ ''Content-Length: '' @ py_str (int (length content))
                                       @ CRLF @ CRLF @ content
                        in wsend response)
           | _ \<Rightarrow> \<lparr>wsent = None, wraised = Some ValueError\<rparr>))"

section \<open>Deployments, histories and the properties of a cache\<close>

definition stub_upstream :: "string \<Rightarrow> upstream_outcome" where
  \<comment> \<open>The web server above as the upstream: the proxy reads at most 4096 bytes of what
      it sends, and reads no bytes when it closes the connection without an answer.\<close>
  "stub_upstream rq =
     (case wsent (WebServer_handle_client rq) of
        None \<Rightarrow> Response []
      | Some r \<Rightarrow> Response (take 4096 r))"

definition stub_env :: env where
  "stub_env = \<lparr>upstream = stub_upstream, writable = (\<lambda>_. True)\<rparr>"

definition refusing_env :: env where
  "refusing_env = \<lparr>upstream = (\<lambda>_. Refused), writable = (\<lambda>_. True)\<rparr>"

definition answering_env :: "string \<Rightarrow> env" where
  \<comment> \<open>An upstream that answers every request with the same bytes.\<close>
  "answering_env r = \<lparr>upstream = (\<lambda>_. Response r), writable = (\<lambda>_. True)\<rparr>"

definition fresh_proxy :: proxy where
  "fresh_proxy = ProxyServer_init ''localhost'' 8080 Map.empty"

text \<open>
  The remaining definitions state properties of the proxy: which requests reach the
  forwarder, when a cache is well formed, and which evictions and stores a history of
  requests performs, with the time at which each key was inserted.
\<close>

definition valid_uri :: "string \<Rightarrow> bool" where
  \<comment> \<open>The checks of lines 78 and 96 to 97: a leading slash, then an integer of at most 9999.\<close>
  "valid_uri uri =
     (startswith uri ''/'' \<and>
      (case py_int (slice_from uri 1) of None \<Rightarrow> False | Some n \<Rightarrow> n \<le> 9999))"

definition validated :: "string \<Rightarrow> proxy \<Rightarrow> (string \<times> string) option" where
  \<comment> \<open>The URI and version with which a request reaches the forwarder, if it does.\<close>
  "validated request s =
     (case splitlines request of
        [] \<Rightarrow> None
      | request_line # _ \<Rightarrow>
          (case split request_line of
             [method, uri0, version] \<Rightarrow>
               let uri = strip_scheme uri0 in
               if method = ''GET'' \<and> valid_uri uri \<and> \<not> cached_odd s uri
               then Some (uri, version) else None
           | _ \<Rightarrow> None))"

definition entry_ok :: "proxy \<Rightarrow> string \<times> string \<Rightarrow> bool" where
  \<comment> \<open>An entry of the index: a validated URI, bound to its own file name, whose file exists.\<close>
  "entry_ok s p =
     (valid_uri (fst p) \<and> snd p = cache_key (fst p)
      \<and> files s (path_join CACHE_DIR (snd p)) \<noteq> None)"

definition cache_ok :: "proxy \<Rightarrow> bool" where
  "cache_ok s =
     (distinct (keys (cache s)) \<and> length (cache s) \<le> CACHE_SIZE_LIMIT
      \<and> list_all (entry_ok s) (cache s))"

datatype cache_op = Evict | Store string string

fun apply_op :: "cache_op \<Rightarrow> proxy \<Rightarrow> proxy" where
  "apply_op Evict s = evict_cache s"
| "apply_op (Store uri response) s = store uri response s"

fun exec :: "proxy \<Rightarrow> cache_op list \<Rightarrow> proxy" where
  "exec s [] = s"
| "exec s (x # xs) = exec (apply_op x s) xs"

definition cache_ops :: "env \<Rightarrow> string \<Rightarrow> proxy \<Rightarrow> cache_op list" where
  \<comment> \<open>The cache operations that handling one request performs, in their order.\<close>
  "cache_ops e request s =
     (case validated request s of
        None \<Rightarrow> []
      | Some (uri, version) \<Rightarrow>
          (case upstream e (web_request s uri version) of
             Response response \<Rightarrow>
               (if is_cache_full s then [Evict] else [])
               @ (if writable e (path_join CACHE_DIR (cache_key uri))
                  then [Store uri response] else [])
           | _ \<Rightarrow> []))"

fun history_ops :: "proxy \<Rightarrow> (env \<times> string) list \<Rightarrow> cache_op list" where
  "history_ops s [] = []"
| "history_ops s ((e, request) # rest) =
     cache_ops e request s @ history_ops (snd (ProxyServer_handle_client e request s)) rest"

fun insertion_times :: "proxy \<Rightarrow> nat \<Rightarrow> (string \<Rightarrow> nat) \<Rightarrow> cache_op list \<Rightarrow> string \<Rightarrow> nat" where
  \<comment> \<open>The operations are numbered from \<open>t + 1\<close>; for a key of the cache the result is
      the number of the operation that inserted its present entry, that is the last
      \<open>Store\<close> of that key which found it absent.\<close>
  "insertion_times s t b [] = b"
| "insertion_times s t b (Evict # ops) = insertion_times (evict_cache s) (Suc t) b ops"
| "insertion_times s t b (Store uri response # ops) =
     insertion_times (store uri response s) (Suc t)
       (if uri \<in> set (keys (cache s)) then b else b(uri := Suc t)) ops"

definition inserted_at :: "proxy \<Rightarrow> (env \<times> string) list \<Rightarrow> string \<Rightarrow> nat" where
  "inserted_at s hist = insertion_times s 0 (\<lambda>_. 0) (history_ops s hist)"

definition ten_requests :: "(env \<times> string) list" where
  "ten_requests = map (Pair (answering_env ''ok''))
     [''GET /0 HTTP/1.1'',
      ''GET /1 HTTP/1.1'',
      ''GET /2 HTTP/1.1'',
      ''GET /3 HTTP/1.1'',
      ''GET /4 HTTP/1.1'',
      ''GET /5 HTTP/1.1'',
      ''GET /6 HTTP/1.1'',
      ''GET /7 HTTP/1.1'',
      ''GET /8 HTTP/1.1'',
      ''GET /9 HTTP/1.1'']"

definition two_requests :: "(env \<times> string) list" where
  "two_requests =
     [(answering_env ''ok'', ''GET /0 HTTP/1.1''), (answering_env ''ok'', ''GET /1 HTTP/1.1'')]"

definition three_requests :: "(env \<times> string) list" where
  "three_requests =
     [(answering_env ''ok'', ''GET /0 HTTP/1.1''), (answering_env ''ok'', ''GET /1 HTTP/1.1''),
      (answering_env ''ok'', ''GET /0 HTTP/1.1'')]"

section \<open>Request parsing and normalisation\<close>

lemmas text_defs = splitlines_def split_def is_space_def is_linebreak_def is_int_space_def

lemma find_from_absent:
  "x \<notin> set xs \<Longrightarrow> find_from i x (xs @ x # ys) = int (i + length xs)"
  by (induction xs arbitrary: i) auto

lemma strip_scheme_host_path:
  assumes "CHR ''/'' \<notin> set host"
  shows "strip_scheme (''http://'' @ host @ ''/'' @ path) = ''/'' @ path"
proof -
  have "find (host @ CHR ''/'' # path) CHR ''/'' = int (length host)"
    using find_from_absent [OF assms, of 0 path] by (simp add: find_def)
  then show ?thesis
    by (simp add: strip_scheme_def startswith_def slice_from_def)
qed

lemma handle_client_GET:
  assumes "splitlines request = line # rest" and "split line = [''GET'', uri0, version]"
  shows "ProxyServer_handle_client e request s =
     (let uri = strip_scheme uri0 in
      if \<not> startswith uri ''/'' then (respond 400 ''Bad Request'', s)
      else if cached_odd s uri then (respond 304 ''Not Modified'', s)
      else
        (case py_int (slice_from uri 1) of
           None \<Rightarrow> (respond 400 ''Bad Request'', s)
         | Some n \<Rightarrow>
             if n > 9999 then (respond 414 ''Request-URI Too Long'', s)
             else forward e uri version s))"
  using assms by (simp add: ProxyServer_handle_client_def)

text \<open>
  C6.  An absolute-form URI \<open>http://host/path\<close>, where \<open>host\<close> holds no slash, is
  normalised to \<open>/path\<close>: the scheme and everything before the first remaining slash are
  removed, and that slash is kept.  The normalisation happens before validation and
  caching: a request with the absolute form is handled exactly as the request with the
  normalised URI.
\<close>

theorem normalize_absolute_uri:
  assumes "CHR ''/'' \<notin> set host"
  shows "strip_scheme (''http://'' @ host @ ''/'' @ path) = ''/'' @ path
       \<and> (splitlines request = line # rest
           \<and> split line = [''GET'', ''http://'' @ host @ ''/'' @ path, version]
           \<and> splitlines request' = line' # rest'
           \<and> split line' = [''GET'', ''/'' @ path, version]
          \<longrightarrow> ProxyServer_handle_client e request s = ProxyServer_handle_client e request' s)"
proof -
  have a: "strip_scheme (''http://'' @ host @ ''/'' @ path) = ''/'' @ path"
    by (rule strip_scheme_host_path [OF assms])
  have b: "strip_scheme (''/'' @ path) = ''/'' @ path"
    by (simp add: strip_scheme_def startswith_def)
  show ?thesis
    using a b by (auto simp: handle_client_GET simp del: append.simps)
qed

theorem normalize_absolute_uri_witness:
  "strip_scheme ''http://localhost:8080/200'' = ''/200''
   \<and> ProxyServer_handle_client stub_env ''GET http://localhost:8080/200 HTTP/1.1'' fresh_proxy
     = ProxyServer_handle_client stub_env ''GET /200 HTTP/1.1'' fresh_proxy"
  using normalize_absolute_uri [of "''localhost:8080''" "''200''"
      "''GET http://localhost:8080/200 HTTP/1.1''" "''GET http://localhost:8080/200 HTTP/1.1''" "[]"
      "''HTTP/1.1''" "''GET /200 HTTP/1.1''" "''GET /200 HTTP/1.1''" "[]" stub_env fresh_proxy]
  by (simp add: text_defs)

text \<open>
  C9.  When the first line of a request splits into more than three tokens, the
  unpacking into three names raises \<open>ValueError\<close>, which nothing catches: the proxy
  sends no response, contacts nobody and leaves its state as it was, and the web
  server sends no response either.
\<close>

theorem too_many_tokens_raise:
  assumes "splitlines request = line # rest" and "length (split line) > 3"
  shows "ProxyServer_handle_client e request s
           = (\<lparr>sent = None, raised = Some ValueError, contacted = False\<rparr>, s)
       \<and> WebServer_handle_client request = \<lparr>wsent = None, wraised = Some ValueError\<rparr>"
proof -
  obtain a b c d ds where "split line = a # b # c # d # ds"
    using assms(2) by (auto simp: Suc_le_length_iff less_eq_Suc_le numeral_3_eq_3)
  with assms(1) show ?thesis
    by (simp add: ProxyServer_handle_client_def WebServer_handle_client_def)
qed

theorem too_many_tokens_raise_witness:
  "ProxyServer_handle_client stub_env ''GET /100 HTTP/1.1 extra'' fresh_proxy
     = (\<lparr>sent = None, raised = Some ValueError, contacted = False\<rparr>, fresh_proxy)
   \<and> WebServer_handle_client ''GET /100 HTTP/1.1 extra''
     = \<lparr>wsent = None, wraised = Some ValueError\<rparr>"
  using too_many_tokens_raise [of "''GET /100 HTTP/1.1 extra''" "''GET /100 HTTP/1.1 extra''"
      "[]" stub_env fresh_proxy]
  by (simp add: text_defs)


section \<open>Dictionary operations\<close>

lemma keys_dict_set:
  "keys (dict_set d k v) = (if k \<in> set (keys d) then keys d else keys d @ [k])"
  by (induction d) (force simp: keys_def)+

lemma length_dict_set:
  "length (dict_set d k v) = (if k \<in> set (keys d) then length d else Suc (length d))"
  by (induction d) (force simp: keys_def)+

lemma dict_set_mem: "p \<in> set (dict_set d k v) \<Longrightarrow> p = (k, v) \<or> p \<in> set d"
  by (induction d) (auto split: if_splits)

lemma dict_del_head: "distinct (keys ((k, v) # d)) \<Longrightarrow> dict_del ((k, v) # d) k = d"
  by (auto simp: dict_del_def keys_def filter_id_conv)

lemma dict_get_distinct: "distinct (keys d) \<Longrightarrow> (dict_get d k = Some v) = ((k, v) \<in> set d)"
  by (simp add: dict_get_def keys_def)

lemma dict_get_None: "(dict_get d k = None) = (k \<notin> set (keys d))"
  by (simp add: dict_get_def keys_def map_of_eq_None_iff)

section \<open>Validated URIs and their file names\<close>

lemma int_digits_chars:
  "int_digits need acc cs = Some n \<Longrightarrow> c \<in> set cs \<Longrightarrow> is_digit c \<or> c = CHR ''_''"
  by (induction need acc cs rule: int_digits.induct) (auto split: if_splits)

lemma mem_dropWhile: "x \<in> set xs \<Longrightarrow> \<not> P x \<Longrightarrow> x \<in> set (dropWhile P xs)"
  by (induction xs) auto

lemma mem_strip: "x \<in> set s \<Longrightarrow> \<not> is_int_space x \<Longrightarrow> x \<in> set (strip s)"
  unfolding strip_def by (simp add: mem_dropWhile)

lemma py_int_no_slash:
  assumes "py_int t = Some n"
  shows "CHR ''/'' \<notin> set t"
proof
  assume "CHR ''/'' \<in> set t"
  then have m: "CHR ''/'' \<in> set (strip t)"
    by (rule mem_strip) (simp add: is_int_space_def)
  then obtain c cs where t: "strip t = c # cs"
    by (cases "strip t") auto
  have nd: "\<not> (is_digit CHR ''/'' \<or> CHR ''/'' = CHR ''_'')"
    by (simp add: is_digit_def)
  show False
  proof (cases "c = CHR ''-'' \<or> c = CHR ''+''")
    case True
    then obtain k where "int_digits True 0 cs = Some k"
      using assms t by (auto simp: py_int_def split: if_splits)
    moreover have "CHR ''/'' \<in> set cs"
      using m t True by auto
    ultimately show False
      using int_digits_chars nd by blast
  next
    case False
    then have "int_digits True 0 (c # cs) = Some n"
      using assms t by (simp add: py_int_def)
    then show False
      using int_digits_chars [of True 0 "c # cs" n "CHR ''/''"] m t nd by simp
  qed
qed

lemma valid_uri_shape:
  assumes "valid_uri k"
  obtains t where "k = CHR ''/'' # t" and "CHR ''/'' \<notin> set t"
proof -
  from assms obtain t where k: "k = CHR ''/'' # t"
    by (cases k) (auto simp: valid_uri_def startswith_def)
  from assms k obtain n where "py_int t = Some n"
    by (auto simp: valid_uri_def slice_from_def split: option.splits)
  then have "CHR ''/'' \<notin> set t"
    by (rule py_int_no_slash)
  with k show thesis
    by (rule that)
qed

lemma cache_key_valid:
  assumes "valid_uri k"
  shows "cache_key k = CHR ''_'' # tl k"
proof -
  from assms obtain t where k: "k = CHR ''/'' # t" and t: "CHR ''/'' \<notin> set t"
    by (rule valid_uri_shape)
  have "map (\<lambda>c. if c = CHR ''/'' then CHR ''_'' else c) t = t"
    using t by (intro map_idI) auto
  with k show ?thesis
    by (simp add: cache_key_def replace_char_def)
qed

lemma path_valid:
  assumes "valid_uri k"
  shows "path_join CACHE_DIR (cache_key k) = ''proxy_cache/_'' @ tl k"
  by (simp add: cache_key_valid [OF assms] path_join_def CACHE_DIR_def startswith_def)

lemma path_inj:
  assumes "valid_uri k" and "valid_uri k'"
    and "path_join CACHE_DIR (cache_key k) = path_join CACHE_DIR (cache_key k')"
  shows "k = k'"
proof -
  from assms(1) obtain t where k: "k = CHR ''/'' # t" by (rule valid_uri_shape)
  from assms(2) obtain t' where k': "k' = CHR ''/'' # t'" by (rule valid_uri_shape)
  from assms(3) have "tl k = tl k'"
    by (simp add: path_valid [OF assms(1)] path_valid [OF assms(2)])
  with k k' show ?thesis
    by simp
qed

lemma length_cache_key: "length (cache_key uri) = length uri"
  by (simp add: cache_key_def replace_char_def)

section \<open>The invariant of the cache\<close>

lemma cache_ok_init: "cache_ok (ProxyServer_init h p fs)"
  by (simp add: cache_ok_def ProxyServer_init_def keys_def)

lemma evict_cache_Nil: "cache s = [] \<Longrightarrow> evict_cache s = s"
  by (simp add: evict_cache_def)

lemma cache_evict_Cons:
  "cache s = (k, v) # d \<Longrightarrow> distinct (keys (cache s)) \<Longrightarrow> cache (evict_cache s) = d"
  by (simp add: evict_cache_def Let_def dict_del_head)

lemma files_evict_Cons:
  "cache s = (k, v) # d \<Longrightarrow> files (evict_cache s) = (files s)(path_join CACHE_DIR v := None)"
  by (auto simp: evict_cache_def Let_def dom_def)

lemma cache_ok_evict:
  assumes "cache_ok s"
  shows "cache_ok (evict_cache s)"
proof (cases "cache s")
  case Nil
  with assms show ?thesis
    by (simp add: evict_cache_Nil)
next
  case (Cons p d)
  obtain k v where p: "p = (k, v)"
    by (cases p)
  from assms have dist: "distinct (keys (cache s))"
    and len: "length (cache s) \<le> CACHE_SIZE_LIMIT"
    and ents: "\<forall>q \<in> set (cache s). entry_ok s q"
    by (simp_all add: cache_ok_def list_all_iff)
  have c: "cache (evict_cache s) = d"
    using Cons p dist by (simp add: cache_evict_Cons)
  have f: "files (evict_cache s) = (files s)(path_join CACHE_DIR v := None)"
    using Cons p by (simp add: files_evict_Cons)
  have head: "entry_ok s (k, v)"
    using ents Cons p by simp
  have "entry_ok (evict_cache s) q" if q: "q \<in> set d" for q
  proof -
    have eq: "entry_ok s q"
      using ents Cons q by simp
    have "fst q \<noteq> k"
      using dist Cons p q by (auto simp: keys_def)
    then have "path_join CACHE_DIR (snd q) \<noteq> path_join CACHE_DIR v"
      using path_inj [of "fst q" k] eq head by (auto simp: entry_ok_def)
    with eq show ?thesis
      by (auto simp: entry_ok_def f)
  qed
  then show ?thesis
    using dist len Cons by (simp add: cache_ok_def c list_all_iff keys_def)
qed

lemma cache_ok_store:
  assumes "cache_ok s" and "valid_uri uri"
    and "uri \<in> set (keys (cache s)) \<or> length (cache s) < CACHE_SIZE_LIMIT"
  shows "cache_ok (store uri r s)"
proof -
  from assms(1) have dist: "distinct (keys (cache s))"
    and len: "length (cache s) \<le> CACHE_SIZE_LIMIT"
    and ents: "\<forall>q \<in> set (cache s). entry_ok s q"
    by (simp_all add: cache_ok_def list_all_iff)
  have c: "cache (store uri r s) = dict_set (cache s) uri (cache_key uri)"
    and f: "files (store uri r s) = (files s)(path_join CACHE_DIR (cache_key uri) \<mapsto> r)"
    by (simp_all add: store_def)
  have "entry_ok (store uri r s) q" if "q \<in> set (dict_set (cache s) uri (cache_key uri))" for q
  proof -
    from that consider "q = (uri, cache_key uri)" | "q \<in> set (cache s)"
      using dict_set_mem by fastforce
    then show ?thesis
    proof cases
      case 1
      then show ?thesis
        using assms(2) by (simp add: entry_ok_def f)
    next
      case 2
      then have "entry_ok s q"
        using ents by simp
      then show ?thesis
        by (auto simp: entry_ok_def f)
    qed
  qed
  moreover have "distinct (keys (dict_set (cache s) uri (cache_key uri)))"
    using dist by (simp add: keys_dict_set)
  moreover have "length (dict_set (cache s) uri (cache_key uri)) \<le> CACHE_SIZE_LIMIT"
    using len assms(3) by (auto simp: length_dict_set)
  ultimately show ?thesis
    by (simp add: cache_ok_def c list_all_iff)
qed

lemma length_evict_full:
  assumes "cache_ok s" and "is_cache_full s"
  shows "length (cache (evict_cache s)) < CACHE_SIZE_LIMIT"
proof -
  from assms(2) obtain p d where c: "cache s = p # d"
    by (cases "cache s") (auto simp: is_cache_full_def CACHE_SIZE_LIMIT_def)
  obtain k v where "p = (k, v)"
    by (cases p)
  with c assms(1) have "cache (evict_cache s) = d"
    by (simp add: cache_evict_Cons cache_ok_def)
  with c assms(1) show ?thesis
    by (simp add: cache_ok_def)
qed

lemma cache_ok_forward:
  assumes "cache_ok s" and "valid_uri uri"
  shows "cache_ok (snd (forward e uri version s))"
proof (cases "upstream e (web_request s uri version)")
  case (Response r)
  define s1 where "s1 = (if is_cache_full s then evict_cache s else s)"
  have ok1: "cache_ok s1"
    using assms(1) by (simp add: s1_def cache_ok_evict)
  have "length (cache s1) < CACHE_SIZE_LIMIT"
    using assms(1) by (auto simp: s1_def length_evict_full is_cache_full_def)
  then have "cache_ok (store uri r s1)"
    using ok1 assms(2) by (simp add: cache_ok_store)
  with ok1 Response show ?thesis
    by (simp add: forward_def Let_def s1_def)
qed (use assms in \<open>simp_all add: forward_def\<close>)

lemma validated_SomeD:
  assumes "validated request s = Some (uri, version)"
  shows "valid_uri uri" and "\<not> cached_odd s uri"
    and "ProxyServer_handle_client e request s = forward e uri version s"
  using assms
  by (auto simp: validated_def ProxyServer_handle_client_def valid_uri_def Let_def
      split: list.splits option.splits if_splits)

lemma validated_NoneD:
  assumes "validated request s = None"
  shows "snd (ProxyServer_handle_client e request s) = s"
    and "contacted (fst (ProxyServer_handle_client e request s)) = False"
  using assms
  by (auto simp: validated_def ProxyServer_handle_client_def valid_uri_def Let_def respond_def
      split: list.splits option.splits if_splits)

lemma cache_ok_handle_client:
  assumes "cache_ok s"
  shows "cache_ok (snd (ProxyServer_handle_client e request s))"
proof (cases "validated request s")
  case None
  with assms show ?thesis
    by (simp add: validated_NoneD)
next
  case (Some p)
  obtain uri version where "p = (uri, version)"
    by (cases p)
  with Some assms show ?thesis
    by (simp add: validated_SomeD cache_ok_forward)
qed

lemma cache_ok_run: "cache_ok s \<Longrightarrow> cache_ok (run s hist)"
  by (induction hist arbitrary: s) (auto simp: cache_ok_handle_client)

lemma cached_odd_ok:
  assumes "cache_ok s"
  shows "cached_odd s uri = (uri \<in> set (keys (cache s)) \<and> odd (length uri))"
proof (cases "dict_get (cache s) uri")
  case None
  then have "uri \<notin> set (keys (cache s))"
    by (simp add: dict_get_None)
  with None show ?thesis
    by (simp add: cached_odd_def)
next
  case (Some v)
  then have m: "(uri, v) \<in> set (cache s)"
    using assms by (simp add: dict_get_distinct cache_ok_def)
  then have "entry_ok s (uri, v)"
    using assms by (simp add: cache_ok_def list_all_iff)
  then have "length v = length uri"
    by (simp add: entry_ok_def length_cache_key)
  moreover have "uri \<in> set (keys (cache s))"
    using m by (force simp: keys_def)
  ultimately show ?thesis
    using Some by (simp add: cached_odd_def odd_iff_mod_2_eq_one)
qed

lemma cached_valid:
  assumes "cache_ok s" and "uri \<in> set (keys (cache s))"
  shows "valid_uri uri" and "dict_get (cache s) uri = Some (cache_key uri)"
proof -
  from assms(2) obtain v where m: "(uri, v) \<in> set (cache s)"
    by (auto simp: keys_def)
  then have e: "entry_ok s (uri, v)"
    using assms(1) by (simp add: cache_ok_def list_all_iff)
  then show "valid_uri uri"
    by (simp add: entry_ok_def)
  from e m assms(1) show "dict_get (cache s) uri = Some (cache_key uri)"
    by (simp add: dict_get_distinct cache_ok_def entry_ok_def)
qed

lemma reachable_ok: "cache_ok (run (ProxyServer_init h p fs) hist)"
  by (simp add: cache_ok_run cache_ok_init)

lemmas eval_defs =
  ProxyServer_handle_client_def splitlines_def split_def is_space_def is_linebreak_def
  is_int_space_def
  strip_scheme_def startswith_def cached_odd_def dict_get_def py_int_def strip_def
  is_digit_def digit_val_def slice_from_def find_def forward_def web_request_def store_def
  cache_key_def replace_char_def path_join_def CACHE_DIR_def is_cache_full_def
  CACHE_SIZE_LIMIT_def evict_cache_def dict_del_def respond_def fresh_proxy_def
  ProxyServer_init_def stub_env_def refusing_env_def answering_env_def validated_def
  valid_uri_def keys_def

section \<open>Error responses\<close>

text \<open>
  C7.  A request that passes validation (a \<open>GET\<close> whose normalised URI starts with a
  slash, is not answered from the cache check and carries an integer of at most 9999)
  and whose connection to the upstream server is refused is answered with
  \<open>404 Not Found\<close>, and the state of the proxy, both the index and the files, is the
  state before the request.
\<close>

theorem refused_gives_404_and_no_caching:
  assumes "splitlines request = line # rest"
    and "split line = [''GET'', uri0, version]"
    and "uri = strip_scheme uri0"
    and "startswith uri ''/''"
    and "\<not> cached_odd s uri"
    and "py_int (slice_from uri 1) = Some n"
    and "n \<le> 9999"
    and "upstream e (web_request s uri version) = Refused"
  shows "ProxyServer_handle_client e request s
           = (\<lparr>sent = Some (send_response 404 ''Not Found'' []), raised = None,
               contacted = True\<rparr>, s)"
  using assms by (simp add: handle_client_GET forward_def)

theorem refused_gives_404_and_no_caching_witness:
  "ProxyServer_handle_client refusing_env ''GET /100 HTTP/1.1'' fresh_proxy
     = (\<lparr>sent = Some (send_response 404 ''Not Found'' []), raised = None,
         contacted = True\<rparr>, fresh_proxy)"
  using refused_gives_404_and_no_caching [of "''GET /100 HTTP/1.1''" "''GET /100 HTTP/1.1''" "[]"
      "''/100''" "''HTTP/1.1''" "''/100''" fresh_proxy 100 refusing_env]
  by (simp add: text_defs strip_scheme_def startswith_def cached_odd_def dict_get_def
      fresh_proxy_def ProxyServer_init_def py_int_def strip_def is_digit_def digit_val_def
      slice_from_def refusing_env_def)

text \<open>
  C5.  A \<open>GET\<close> request whose normalised URI carries an integer above 9999 is answered
  with \<open>304\<close> when the cache check short-circuits it and with
  \<open>414 Request-URI Too Long\<close> otherwise: the cache lookup comes before the size check.
  In every state that the proxy reaches from its start the answer is 414, so a request
  for \<open>/99999\<close> receives 414 whatever the cache holds.
\<close>

theorem uri_too_long:
  assumes "splitlines request = line # rest"
    and "split line = [''GET'', uri0, version]"
    and "uri = strip_scheme uri0"
    and "startswith uri ''/''"
    and "py_int (slice_from uri 1) = Some n"
    and "n > 9999"
  shows "ProxyServer_handle_client e request s
           = (if cached_odd s uri then respond 304 ''Not Modified''
              else respond 414 ''Request-URI Too Long'', s)
       \<and> (s = run (ProxyServer_init h p fs) hist
          \<longrightarrow> ProxyServer_handle_client e request s = (respond 414 ''Request-URI Too Long'', s))"
proof -
  have a: "ProxyServer_handle_client e request s
           = (if cached_odd s uri then respond 304 ''Not Modified''
              else respond 414 ''Request-URI Too Long'', s)"
    using assms by (simp add: handle_client_GET)
  have "\<not> cached_odd s uri" if "s = run (ProxyServer_init h p fs) hist"
  proof -
    have ok: "cache_ok s"
      using that by (simp add: reachable_ok)
    have "\<not> valid_uri uri"
      using assms by (simp add: valid_uri_def)
    then have "uri \<notin> set (keys (cache s))"
      using cached_valid(1) [OF ok] by blast
    then show ?thesis
      by (simp add: cached_odd_ok [OF ok])
  qed
  with a show ?thesis
    by auto
qed

theorem uri_too_long_witness:
  "ProxyServer_handle_client stub_env ''GET /99999 HTTP/1.1'' fresh_proxy
     = (respond 414 ''Request-URI Too Long'', fresh_proxy)"
  using uri_too_long [where request = "''GET /99999 HTTP/1.1''" and line = "''GET /99999 HTTP/1.1''"
      and rest = "[]" and ?uri0.0 = "''/99999''" and version = "''HTTP/1.1''" and uri = "''/99999''"
      and n = 99999 and e = stub_env and s = fresh_proxy and h = "''localhost''" and p = 8080
      and fs = Map.empty and hist = "[]"]
  by (simp add: text_defs strip_scheme_def startswith_def cached_odd_def dict_get_def
      fresh_proxy_def ProxyServer_init_def py_int_def strip_def is_digit_def digit_val_def
      slice_from_def)


text \<open>
  C8.  Malformed requests are answered locally, without upstream contact and with the
  state unchanged: an empty request gets no response; a first line of fewer than three
  tokens gets \<open>400 Bad Request\<close>; a method other than \<open>GET\<close> gets
  \<open>501 Not Implemented\<close>; a normalised URI that starts with a slash and whose rest is
  not an integer gets \<open>400 Bad Request\<close>, in every state that the proxy reaches from
  its start.
\<close>

theorem malformed_requests:
  "ProxyServer_handle_client e [] s = (\<lparr>sent = None, raised = None, contacted = False\<rparr>, s)
   \<and> (splitlines request = line # rest \<and> length (split line) < 3
        \<longrightarrow> ProxyServer_handle_client e request s = (respond 400 ''Bad Request'', s))
   \<and> (splitlines request = line # rest \<and> split line = [meth, uri0, version]
        \<and> meth \<noteq> ''GET''
        \<longrightarrow> ProxyServer_handle_client e request s = (respond 501 ''Not Implemented'', s))
   \<and> (splitlines request = line # rest \<and> split line = [''GET'', uri0, version]
        \<and> startswith (strip_scheme uri0) ''/''
        \<and> py_int (slice_from (strip_scheme uri0) 1) = None
        \<and> s = run (ProxyServer_init h p fs) hist
        \<longrightarrow> ProxyServer_handle_client e request s = (respond 400 ''Bad Request'', s))
   \<and> contacted (respond status_code reason) = False"
proof -
  have a: "ProxyServer_handle_client e [] s = (\<lparr>sent = None, raised = None, contacted = False\<rparr>, s)"
    by (simp add: ProxyServer_handle_client_def splitlines_def)
  have b: "ProxyServer_handle_client e request s = (respond 400 ''Bad Request'', s)"
    if "splitlines request = line # rest" and "length (split line) < 3"
    using that by (simp add: ProxyServer_handle_client_def)
  have c: "ProxyServer_handle_client e request s = (respond 501 ''Not Implemented'', s)"
    if "splitlines request = line # rest" and "split line = [meth, uri0, version]"
      and "meth \<noteq> ''GET''"
    using that by (simp add: ProxyServer_handle_client_def)
  have d: "ProxyServer_handle_client e request s = (respond 400 ''Bad Request'', s)"
    if l: "splitlines request = line # rest" "split line = [''GET'', uri0, version]"
      and st: "startswith (strip_scheme uri0) ''/''"
      and pi: "py_int (slice_from (strip_scheme uri0) 1) = None"
      and s: "s = run (ProxyServer_init h p fs) hist"
  proof -
    have ok: "cache_ok s"
      using s by (simp add: reachable_ok)
    have "\<not> valid_uri (strip_scheme uri0)"
      using pi by (simp add: valid_uri_def)
    then have "strip_scheme uri0 \<notin> set (keys (cache s))"
      using cached_valid(1) [OF ok] by blast
    then have "\<not> cached_odd s (strip_scheme uri0)"
      by (simp add: cached_odd_ok [OF ok])
    with l st pi show ?thesis
      by (simp add: handle_client_GET)
  qed
  have e: "contacted (respond status_code reason) = False"
    by (simp add: respond_def)
  from a b c d e show ?thesis
    by blast
qed

theorem malformed_requests_witness:
  "ProxyServer_handle_client stub_env ''GET /100'' fresh_proxy = (respond 400 ''Bad Request'', fresh_proxy)
   \<and> ProxyServer_handle_client stub_env ''POST /100 HTTP/1.1'' fresh_proxy
       = (respond 501 ''Not Implemented'', fresh_proxy)
   \<and> ProxyServer_handle_client stub_env ''GET /abc HTTP/1.1'' fresh_proxy
       = (respond 400 ''Bad Request'', fresh_proxy)"
proof -
  note m = malformed_requests [where e = stub_env and s = fresh_proxy and h = "''localhost''"
      and p = 8080 and fs = Map.empty and hist = "[]" and rest = "[]" and version = "''HTTP/1.1''"]
  have 1: "ProxyServer_handle_client stub_env ''GET /100'' fresh_proxy
             = (respond 400 ''Bad Request'', fresh_proxy)"
    using m [where request = "''GET /100''" and line = "''GET /100''"]
    by (simp add: text_defs)
  have 2: "ProxyServer_handle_client stub_env ''POST /100 HTTP/1.1'' fresh_proxy
             = (respond 501 ''Not Implemented'', fresh_proxy)"
    using m [where request = "''POST /100 HTTP/1.1''" and line = "''POST /100 HTTP/1.1''"
        and meth = "''POST''" and ?uri0.0 = "''/100''"]
    by (simp add: text_defs)
  have 3: "ProxyServer_handle_client stub_env ''GET /abc HTTP/1.1'' fresh_proxy
             = (respond 400 ''Bad Request'', fresh_proxy)"
    using m [where request = "''GET /abc HTTP/1.1''" and line = "''GET /abc HTTP/1.1''"
        and ?uri0.0 = "''/abc''"]
    by (simp add: text_defs strip_scheme_def startswith_def py_int_def strip_def is_digit_def
        slice_from_def fresh_proxy_def)
  from 1 2 3 show ?thesis
    by simp
qed

section \<open>What the cache check looks at\<close>

text \<open>
  C10.  In every state reached from the start, the value stored under a cached URI is
  \<open>cache_key uri\<close>, which is as long as the URI; so a \<open>GET\<close> for a cached URI takes
  the \<open>304\<close> branch exactly when the number of characters of the URI is odd, whatever
  the cache files contain.
\<close>

theorem cache_hit_parity_is_uri_parity:
  assumes "s = run (ProxyServer_init h p fs) hist"
    and "uri \<in> set (keys (cache s))"
    and "splitlines request = line # rest"
    and "split line = [''GET'', uri0, version]"
    and "strip_scheme uri0 = uri"
  shows "dict_get (cache s) uri = Some (cache_key uri)
       \<and> length (cache_key uri) = length uri
       \<and> (fst (ProxyServer_handle_client e request (s\<lparr>files := fs'\<rparr>))
            = respond 304 ''Not Modified'') = odd (length uri)"
proof -
  have ok: "cache_ok s"
    using assms(1) by (simp add: reachable_ok)
  have v: "valid_uri uri" and g: "dict_get (cache s) uri = Some (cache_key uri)"
    using cached_valid [OF ok assms(2)] by simp_all
  have co: "cached_odd (s\<lparr>files := fs'\<rparr>) uri = odd (length uri)"
    using g by (simp add: cached_odd_def length_cache_key odd_iff_mod_2_eq_one)
  from v obtain n where n: "py_int (slice_from uri 1) = Some n" "n \<le> 9999"
    and sl: "startswith uri ''/''"
    by (auto simp: valid_uri_def split: option.splits)
  have h: "ProxyServer_handle_client e request (s\<lparr>files := fs'\<rparr>)
             = (if odd (length uri) then (respond 304 ''Not Modified'', s\<lparr>files := fs'\<rparr>)
                else forward e uri version (s\<lparr>files := fs'\<rparr>))"
    using assms(3,4,5) n sl co by (simp add: handle_client_GET)
  have "contacted (fst (forward e uri version (s\<lparr>files := fs'\<rparr>)))"
    by (simp add: forward_def Let_def split: upstream_outcome.splits)
  then have "fst (forward e uri version (s\<lparr>files := fs'\<rparr>)) \<noteq> respond 304 ''Not Modified''"
    by (auto simp: respond_def)
  with h g show ?thesis
    by (simp add: length_cache_key)
qed

theorem cache_hit_parity_is_uri_parity_witness:
  "dict_get (cache (run fresh_proxy [(answering_env ''ok'', ''GET /10 HTTP/1.1'')])) ''/10''
     = Some ''_10''
   \<and> fst (ProxyServer_handle_client stub_env ''GET /10 HTTP/1.1''
          ((run fresh_proxy [(answering_env ''ok'', ''GET /10 HTTP/1.1'')])\<lparr>files := Map.empty\<rparr>))
       = respond 304 ''Not Modified''"
  using cache_hit_parity_is_uri_parity [where h = "''localhost''" and p = 8080 and fs = Map.empty
      and hist = "[(answering_env ''ok'', ''GET /10 HTTP/1.1'')]"
      and s = "run fresh_proxy [(answering_env ''ok'', ''GET /10 HTTP/1.1'')]"
      and uri = "''/10''" and request = "''GET /10 HTTP/1.1''" and line = "''GET /10 HTTP/1.1''"
      and rest = "[]" and ?uri0.0 = "''/10''" and version = "''HTTP/1.1''" and e = stub_env
      and fs' = Map.empty]
  by (simp add: eval_defs)

section \<open>The size of the cache and its files\<close>

text \<open>
  C2.  Starting from an empty cache, after any sequence of requests handled one after
  the other the cache holds at most \<open>CACHE_SIZE_LIMIT\<close> entries; and when a successful
  fetch finds the cache full, exactly one entry, the first, is evicted before the insert.
\<close>

theorem cache_size_bounded:
  "length (cache (run (ProxyServer_init h p fs) hist)) \<le> CACHE_SIZE_LIMIT
   \<and> (s = run (ProxyServer_init h p fs) hist
        \<and> validated request s = Some (uri, version)
        \<and> upstream e (web_request s uri version) = Response response
        \<and> writable e (path_join CACHE_DIR (cache_key uri))
        \<and> is_cache_full s
      \<longrightarrow> cache s \<noteq> []
          \<and> cache (evict_cache s) = tl (cache s)
          \<and> cache (snd (ProxyServer_handle_client e request s))
              = dict_set (tl (cache s)) uri (cache_key uri))"
proof -
  have ok: "cache_ok (run (ProxyServer_init h p fs) hist)"
    by (rule reachable_ok)
  then have a: "length (cache (run (ProxyServer_init h p fs) hist)) \<le> CACHE_SIZE_LIMIT"
    by (simp add: cache_ok_def)
  have b: "cache s \<noteq> [] \<and> cache (evict_cache s) = tl (cache s)
           \<and> cache (snd (ProxyServer_handle_client e request s))
               = dict_set (tl (cache s)) uri (cache_key uri)"
    if s: "s = run (ProxyServer_init h p fs) hist"
      and v: "validated request s = Some (uri, version)"
      and u: "upstream e (web_request s uri version) = Response response"
      and w: "writable e (path_join CACHE_DIR (cache_key uri))"
      and f: "is_cache_full s"
  proof -
    from f obtain q d where c: "cache s = q # d"
      by (cases "cache s") (auto simp: is_cache_full_def CACHE_SIZE_LIMIT_def)
    obtain k x where "q = (k, x)"
      by (cases q)
    with c ok s have ev: "cache (evict_cache s) = d"
      by (simp add: cache_evict_Cons cache_ok_def)
    have "ProxyServer_handle_client e request s = forward e uri version s"
      using v by (rule validated_SomeD(3))
    then have "cache (snd (ProxyServer_handle_client e request s))
                 = dict_set (cache (evict_cache s)) uri (cache_key uri)"
      using u w f by (simp add: forward_def store_def Let_def)
    with ev c show ?thesis
      by simp
  qed
  from a b show ?thesis
    by blast
qed

lemma ten_cache: "cache (run fresh_proxy ten_requests) =
   [(''/0'',''_0''), (''/1'',''_1''), (''/2'',''_2''), (''/3'',''_3''), (''/4'',''_4''), (''/5'',''_5''), (''/6'',''_6''), (''/7'',''_7''), (''/8'',''_8''), (''/9'',''_9'')]"
  by (simp add: ten_requests_def eval_defs)

theorem cache_size_bounded_witness:
  "length (cache (run fresh_proxy ten_requests)) \<le> CACHE_SIZE_LIMIT
   \<and> is_cache_full (run fresh_proxy ten_requests)
   \<and> cache (snd (ProxyServer_handle_client (answering_env ''ok'') ''GET /10 HTTP/1.1''
               (run fresh_proxy ten_requests)))
       = [(''/1'',''_1''), (''/2'',''_2''), (''/3'',''_3''), (''/4'',''_4''), (''/5'',''_5''),
          (''/6'',''_6''), (''/7'',''_7''), (''/8'',''_8''), (''/9'',''_9''), (''/10'',''_10'')]"
proof -
  let ?s = "run fresh_proxy ten_requests"
  have full: "is_cache_full ?s"
    by (simp add: is_cache_full_def ten_cache CACHE_SIZE_LIMIT_def)
  have val: "validated ''GET /10 HTTP/1.1'' ?s = Some (''/10'', ''HTTP/1.1'')"
    by (simp add: validated_def text_defs strip_scheme_def startswith_def valid_uri_def
        py_int_def strip_def is_digit_def digit_val_def slice_from_def cached_odd_def
        dict_get_def ten_cache)
  have wr: "writable (answering_env ''ok'') (path_join CACHE_DIR (cache_key ''/10''))"
    and up: "upstream (answering_env ''ok'') (web_request ?s ''/10'' ''HTTP/1.1'') = Response ''ok''"
    by (simp_all add: answering_env_def)
  show ?thesis
    using cache_size_bounded [where h = "''localhost''" and p = 8080 and fs = Map.empty
        and hist = ten_requests and s = ?s and request = "''GET /10 HTTP/1.1''"
        and uri = "''/10''" and version = "''HTTP/1.1''" and e = "answering_env ''ok''"
        and response = "''ok''"] full val wr up
    by (simp add: fresh_proxy_def [symmetric] ten_cache cache_key_def replace_char_def)
qed

text \<open>
  C4.  After any sequence of requests handled one after the other, the file of every
  key of the index exists; and evicting from such a state removes the first entry from
  the index together with its file, and leaves every remaining key with its file.
\<close>

theorem index_entries_have_files:
  "(\<forall>(uri, name) \<in> set (cache (run (ProxyServer_init h p fs) hist)).
       files (run (ProxyServer_init h p fs) hist) (path_join CACHE_DIR name) \<noteq> None)
   \<and> (s = run (ProxyServer_init h p fs) hist \<and> cache s = (uri, name) # others
      \<longrightarrow> cache (evict_cache s) = others
          \<and> uri \<notin> set (keys (cache (evict_cache s)))
          \<and> files (evict_cache s) (path_join CACHE_DIR name) = None
          \<and> (\<forall>(uri', name') \<in> set (cache (evict_cache s)).
                files (evict_cache s) (path_join CACHE_DIR name') \<noteq> None))"
proof -
  have ok: "cache_ok (run (ProxyServer_init h p fs) hist)"
    by (rule reachable_ok)
  then have a: "\<forall>(uri, name) \<in> set (cache (run (ProxyServer_init h p fs) hist)).
       files (run (ProxyServer_init h p fs) hist) (path_join CACHE_DIR name) \<noteq> None"
    by (auto simp: cache_ok_def list_all_iff entry_ok_def)
  have b: "s = run (ProxyServer_init h p fs) hist \<and> cache s = (uri, name) # others
      \<longrightarrow> cache (evict_cache s) = others
          \<and> uri \<notin> set (keys (cache (evict_cache s)))
          \<and> files (evict_cache s) (path_join CACHE_DIR name) = None
          \<and> (\<forall>(uri', name') \<in> set (cache (evict_cache s)).
                files (evict_cache s) (path_join CACHE_DIR name') \<noteq> None)"
  proof (intro impI, elim conjE)
    assume s: "s = run (ProxyServer_init h p fs) hist" and c: "cache s = (uri, name) # others"
    have oks: "cache_ok s"
      using ok s by simp
    then have d: "distinct (keys (cache s))"
      by (simp add: cache_ok_def)
    have 1: "cache (evict_cache s) = others"
      using c d by (rule cache_evict_Cons)
    have 2: "uri \<notin> set (keys (cache (evict_cache s)))"
      using d c 1 by (simp add: keys_def)
    have 3: "files (evict_cache s) (path_join CACHE_DIR name) = None"
      using c by (simp add: files_evict_Cons)
    have "cache_ok (evict_cache s)"
      using oks by (rule cache_ok_evict)
    then have 4: "\<forall>(uri', name') \<in> set (cache (evict_cache s)).
                files (evict_cache s) (path_join CACHE_DIR name') \<noteq> None"
      by (auto simp: cache_ok_def list_all_iff entry_ok_def)
    from 1 2 3 4 show "cache (evict_cache s) = others
          \<and> uri \<notin> set (keys (cache (evict_cache s)))
          \<and> files (evict_cache s) (path_join CACHE_DIR name) = None
          \<and> (\<forall>(uri', name') \<in> set (cache (evict_cache s)).
                files (evict_cache s) (path_join CACHE_DIR name') \<noteq> None)"
      by (intro conjI)
  qed
  from a b show ?thesis
    by (rule conjI)
qed

theorem index_entries_have_files_witness:
  "files (run fresh_proxy two_requests) ''proxy_cache/_0'' \<noteq> None
   \<and> cache (evict_cache (run fresh_proxy two_requests)) = [(''/1'', ''_1'')]
   \<and> files (evict_cache (run fresh_proxy two_requests)) ''proxy_cache/_0'' = None
   \<and> files (evict_cache (run fresh_proxy two_requests)) ''proxy_cache/_1'' \<noteq> None"
proof -
  have c: "cache (run fresh_proxy two_requests) = [(''/0'', ''_0''), (''/1'', ''_1'')]"
    by (simp add: two_requests_def eval_defs)
  note t = index_entries_have_files [where h = "''localhost''" and p = 8080 and fs = Map.empty
        and hist = two_requests and s = "run fresh_proxy two_requests" and uri = "''/0''"
        and name = "''_0''" and others = "[(''/1'', ''_1'')]", folded fresh_proxy_def]
  have p: "path_join CACHE_DIR ''_0'' = ''proxy_cache/_0''"
    "path_join CACHE_DIR ''_1'' = ''proxy_cache/_1''"
    by (simp_all add: path_join_def CACHE_DIR_def startswith_def)
  from t c have 1: "files (run fresh_proxy two_requests) ''proxy_cache/_0'' \<noteq> None"
    by (simp add: p)
  from t c have 2: "cache (evict_cache (run fresh_proxy two_requests)) = [(''/1'', ''_1'')]"
    and 3: "files (evict_cache (run fresh_proxy two_requests)) ''proxy_cache/_0'' = None"
    by (simp_all add: p)
  from t c 2 have 4: "files (evict_cache (run fresh_proxy two_requests)) ''proxy_cache/_1'' \<noteq> None"
    by (simp add: p)
  from 1 2 3 4 show ?thesis
    by simp
qed

text \<open>
  C1.  The proxy in front of the web server of this repository, asked twice for
  \<open>/100\<close>: the first response has 165 bytes and is cached, and the second request is
  forwarded and relayed again instead of being answered with \<open>304\<close>, because the cache
  check measures the file name \<open>_100\<close> and not the cached bytes.
\<close>

theorem repeat_after_odd_length_response:
  "(let r1 = fst (ProxyServer_handle_client stub_env ''GET /100 HTTP/1.1'' fresh_proxy);
        s1 = snd (ProxyServer_handle_client stub_env ''GET /100 HTTP/1.1'' fresh_proxy);
        r2 = fst (ProxyServer_handle_client stub_env ''GET /100 HTTP/1.1'' s1)
    in dict_get (cache s1) ''/100'' = Some ''_100''
       \<and> files s1 ''proxy_cache/_100'' = sent r1
       \<and> map_option length (sent r1) = Some 165
       \<and> sent r2 = sent r1 \<and> contacted r2
       \<and> r2 \<noteq> respond 304 ''Not Modified'')"
  by code_simp


section \<open>The order of eviction\<close>

lemma keys_evict:
  "distinct (keys (cache s)) \<Longrightarrow> keys (cache (evict_cache s)) = tl (keys (cache s))"
proof (cases "cache s")
  case Nil
  then show ?thesis
    by (simp add: evict_cache_Nil keys_def)
next
  case (Cons q d)
  assume "distinct (keys (cache s))"
  then show ?thesis
    using Cons cache_evict_Cons [of s "fst q" "snd q" d] by (simp add: keys_def)
qed

lemma keys_store:
  "keys (cache (store uri r s))
     = (if uri \<in> set (keys (cache s)) then keys (cache s) else keys (cache s) @ [uri])"
  by (simp add: store_def keys_dict_set)

lemma insertion_times_sorted:
  assumes "distinct (keys (cache s))"
    and "sorted_wrt (<) (map b (keys (cache s)))"
    and "\<forall>k \<in> set (keys (cache s)). b k \<le> t"
  shows "distinct (keys (cache (exec s ops)))
       \<and> sorted_wrt (<) (map (insertion_times s t b ops) (keys (cache (exec s ops))))"
  using assms
proof (induction ops arbitrary: s t b)
  case Nil
  then show ?case
    by simp
next
  case (Cons x ops)
  show ?case
  proof (cases x)
    case Evict
    have k: "keys (cache (evict_cache s)) = tl (keys (cache s))"
      using Cons.prems(1) by (rule keys_evict)
    have "distinct (keys (cache (evict_cache s)))"
      using Cons.prems(1) by (simp add: k distinct_tl)
    moreover have "sorted_wrt (<) (map b (keys (cache (evict_cache s))))"
      using Cons.prems(2) by (cases "keys (cache s)") (simp_all add: k)
    moreover have "\<forall>k \<in> set (keys (cache (evict_cache s))). b k \<le> Suc t"
      using Cons.prems(3) by (cases "keys (cache s)") (auto simp: k le_SucI)
    ultimately show ?thesis
      using Cons.IH [of "evict_cache s" b "Suc t"] Evict by simp
  next
    case (Store uri r)
    show ?thesis
    proof (cases "uri \<in> set (keys (cache s))")
      case True
      then have k: "keys (cache (store uri r s)) = keys (cache s)"
        by (simp add: keys_store)
      have "\<forall>k \<in> set (keys (cache (store uri r s))). b k \<le> Suc t"
        using Cons.prems(3) by (simp add: k le_SucI)
      then show ?thesis
        using Cons.IH [of "store uri r s" b "Suc t"] Cons.prems(1,2) Store True by (simp add: k)
    next
      case False
      let ?b = "b(uri := Suc t)"
      have k: "keys (cache (store uri r s)) = keys (cache s) @ [uri]"
        using False by (simp add: keys_store)
      have m: "map ?b (keys (cache s)) = map b (keys (cache s))"
        using False by (intro map_cong) auto
      have 1: "distinct (keys (cache (store uri r s)))"
        using Cons.prems(1) False by (simp add: k)
      have "sorted_wrt (<) (map b (keys (cache s)) @ [Suc t])"
        using Cons.prems(2,3) by (auto simp: sorted_wrt_append less_Suc_eq_le)
      then have 2: "sorted_wrt (<) (map ?b (keys (cache (store uri r s))))"
        by (simp add: k m)
      have 3: "\<forall>k \<in> set (keys (cache (store uri r s))). ?b k \<le> Suc t"
        using Cons.prems(3) by (auto simp: k le_SucI)
      have "distinct (keys (cache (exec (store uri r s) ops)))
          \<and> sorted_wrt (<) (map (insertion_times (store uri r s) (Suc t) ?b ops)
                               (keys (cache (exec (store uri r s) ops))))"
        using 1 2 3 by (rule Cons.IH)
      then show ?thesis
        using False by (simp only: Store exec.simps apply_op.simps insertion_times.simps if_False)
    qed
  qed
qed

lemma handle_client_exec:
  "snd (ProxyServer_handle_client e request s) = exec s (cache_ops e request s)"
proof (cases "validated request s")
  case None
  then show ?thesis
    by (simp add: validated_NoneD cache_ops_def)
next
  case (Some q)
  obtain uri version where q: "q = (uri, version)"
    by (cases q)
  have "ProxyServer_handle_client e request s = forward e uri version s"
    using Some q validated_SomeD(3) by simp
  then show ?thesis
    using Some q
    by (simp add: cache_ops_def forward_def Let_def split: upstream_outcome.splits)
qed

lemma exec_append: "exec s (xs @ ys) = exec (exec s xs) ys"
  by (induction xs arbitrary: s) auto

lemma run_exec: "run s hist = exec s (history_ops s hist)"
  by (induction hist arbitrary: s) (auto simp: exec_append handle_client_exec)

lemma ten_keys:
  "keys (cache (run fresh_proxy ten_requests))
     = [''/0'', ''/1'', ''/2'', ''/3'', ''/4'', ''/5'', ''/6'', ''/7'', ''/8'', ''/9'']"
  by (simp add: ten_cache keys_def)

lemma ten_validated:
  "validated ''GET /0 HTTP/1.1'' (run fresh_proxy ten_requests) = Some (''/0'', ''HTTP/1.1'')"
  "validated ''GET /5 HTTP/1.1'' (run fresh_proxy ten_requests) = Some (''/5'', ''HTTP/1.1'')"
  by (simp_all add: validated_def text_defs strip_scheme_def startswith_def valid_uri_def
        py_int_def strip_def is_digit_def digit_val_def slice_from_def cached_odd_def
        dict_get_def ten_cache)

text \<open>
  The handler evicts whenever the cache is full, also when the requested URI is already
  a key.  On the full cache \<open>/0\<close> to \<open>/9\<close> a second fetch of \<open>/0\<close> evicts \<open>/0\<close> and
  stores it anew: the key moves from the first place to the last, and its insertion
  time from the first cache operation to the twelfth.
\<close>

theorem recaching_oldest_moves_it_last:
  "keys (cache (run fresh_proxy ten_requests))
     = [''/0'', ''/1'', ''/2'', ''/3'', ''/4'', ''/5'', ''/6'', ''/7'', ''/8'', ''/9'']
   \<and> keys (cache (snd (ProxyServer_handle_client (answering_env ''ok'') ''GET /0 HTTP/1.1''
                     (run fresh_proxy ten_requests))))
     = [''/1'', ''/2'', ''/3'', ''/4'', ''/5'', ''/6'', ''/7'', ''/8'', ''/9'', ''/0'']
   \<and> inserted_at fresh_proxy ten_requests ''/0'' = 1
   \<and> inserted_at fresh_proxy (ten_requests @ [(answering_env ''ok'', ''GET /0 HTTP/1.1'')]) ''/0''
     = 12"
proof -
  have a: "keys (cache (snd (ProxyServer_handle_client (answering_env ''ok'') ''GET /0 HTTP/1.1''
                     (run fresh_proxy ten_requests))))
     = [''/1'', ''/2'', ''/3'', ''/4'', ''/5'', ''/6'', ''/7'', ''/8'', ''/9'', ''/0'']"
    using validated_SomeD(3) [OF ten_validated(1), of "answering_env ''ok''"]
    by (simp add: forward_def answering_env_def is_cache_full_def CACHE_SIZE_LIMIT_def ten_cache
        evict_cache_def dict_del_def store_def keys_def cache_key_def replace_char_def Let_def)
  have b: "inserted_at fresh_proxy ten_requests ''/0'' = 1"
    by (simp add: ten_requests_def inserted_at_def cache_ops_def eval_defs)
  have c: "inserted_at fresh_proxy (ten_requests @ [(answering_env ''ok'', ''GET /0 HTTP/1.1'')]) ''/0''
     = 12"
    by (simp add: ten_requests_def inserted_at_def cache_ops_def eval_defs)
  from ten_keys a b c show ?thesis
    by (intro conjI)
qed

text \<open>
  C3.  A state reached from the start is the result of the evictions and stores that the
  requests performed, numbered in their order.  When its cache is not empty, eviction
  removes the first entry of the dictionary, and that entry was inserted strictly
  earlier than every other entry present: the order is the order of insertion, whatever
  was requested since.  The assignment that stores under a URI that is already a key
  leaves the order of the keys as it is.  A successful fetch of a URI that is already a
  key therefore keeps the order of the keys when the cache is not full; when the cache
  is full it evicts the oldest key first, so the other keys keep their order, and if the
  fetched URI was that oldest key it is inserted anew as the last one.
\<close>

theorem eviction_is_fifo:
  assumes "s = run (ProxyServer_init h p fs) hist"
    and "cache s = (oldest, name) # others"
  shows "s = exec (ProxyServer_init h p fs) (history_ops (ProxyServer_init h p fs) hist)
       \<and> cache (evict_cache s) = others
       \<and> (\<forall>k \<in> set (keys others).
             inserted_at (ProxyServer_init h p fs) hist oldest
               < inserted_at (ProxyServer_init h p fs) hist k)
       \<and> (uri \<in> set (keys (cache s))
            \<longrightarrow> keys (cache (store uri response s)) = keys (cache s))
       \<and> (validated request s = Some (uri, version)
            \<and> upstream e (web_request s uri version) = Response response
            \<and> writable e (path_join CACHE_DIR (cache_key uri))
            \<and> uri \<in> set (keys (cache s))
          \<longrightarrow> keys (cache (snd (ProxyServer_handle_client e request s)))
                = (if is_cache_full s
                   then (if uri = oldest then keys others @ [uri] else keys others)
                   else keys (cache s)))"
proof -
  let ?i = "ProxyServer_init h p fs"
  have e: "s = exec ?i (history_ops ?i hist)"
    using assms(1) by (simp add: run_exec)
  have "distinct (keys (cache ?i))" "sorted_wrt (<) (map (\<lambda>_. 0::nat) (keys (cache ?i)))"
    "\<forall>k \<in> set (keys (cache ?i)). (\<lambda>_. 0::nat) k \<le> 0"
    by (simp_all add: ProxyServer_init_def keys_def)
  then have d: "distinct (keys (cache s))"
    and st: "sorted_wrt (<) (map (inserted_at ?i hist) (keys (cache s)))"
    using insertion_times_sorted [of ?i "\<lambda>_. 0" 0 "history_ops ?i hist"] e
    by (simp_all add: inserted_at_def)
  have 1: "cache (evict_cache s) = others"
    using assms(2) d by (rule cache_evict_Cons)
  have 2: "\<forall>k \<in> set (keys others). inserted_at ?i hist oldest < inserted_at ?i hist k"
    using st assms(2) by (simp add: keys_def)
  have 3: "uri \<in> set (keys (cache s)) \<longrightarrow> keys (cache (store uri response s)) = keys (cache s)"
    by (simp add: keys_store)
  have 4: "validated request s = Some (uri, version)
            \<and> upstream e (web_request s uri version) = Response response
            \<and> writable e (path_join CACHE_DIR (cache_key uri))
            \<and> uri \<in> set (keys (cache s))
          \<longrightarrow> keys (cache (snd (ProxyServer_handle_client e request s)))
                = (if is_cache_full s
                   then (if uri = oldest then keys others @ [uri] else keys others)
                   else keys (cache s))"
  proof (intro impI, elim conjE)
    assume v: "validated request s = Some (uri, version)"
      and u: "upstream e (web_request s uri version) = Response response"
      and w: "writable e (path_join CACHE_DIR (cache_key uri))"
      and m: "uri \<in> set (keys (cache s))"
    have "ProxyServer_handle_client e request s = forward e uri version s"
      using v by (rule validated_SomeD(3))
    then have h: "snd (ProxyServer_handle_client e request s)
                    = store uri response (if is_cache_full s then evict_cache s else s)"
      using u w by (simp add: forward_def Let_def)
    have ko: "keys (cache s) = oldest # keys others"
      using assms(2) by (simp add: keys_def)
    have mo: "uri \<in> set (keys others) \<longleftrightarrow> uri \<noteq> oldest"
      using m d ko by auto
    show "keys (cache (snd (ProxyServer_handle_client e request s)))
            = (if is_cache_full s
               then (if uri = oldest then keys others @ [uri] else keys others)
               else keys (cache s))"
      using m mo by (simp add: h keys_store 1)
  qed
  from e 1 2 3 4 show ?thesis
    by (intro conjI)
qed

theorem eviction_is_fifo_witness:
  "cache (run fresh_proxy three_requests) = [(''/0'', ''_0''), (''/1'', ''_1'')]
   \<and> cache (evict_cache (run fresh_proxy three_requests)) = [(''/1'', ''_1'')]
   \<and> inserted_at fresh_proxy three_requests ''/0'' < inserted_at fresh_proxy three_requests ''/1''
   \<and> keys (cache (store ''/0'' ''new'' (run fresh_proxy three_requests)))
       = keys (cache (run fresh_proxy three_requests))
   \<and> keys (cache (snd (ProxyServer_handle_client (answering_env ''ok'') ''GET /0 HTTP/1.1''
                       (run fresh_proxy three_requests))))
       = [''/0'', ''/1'']
   \<and> keys (cache (snd (ProxyServer_handle_client (answering_env ''ok'') ''GET /0 HTTP/1.1''
                       (run fresh_proxy ten_requests))))
       = [''/1'', ''/2'', ''/3'', ''/4'', ''/5'', ''/6'', ''/7'', ''/8'', ''/9'', ''/0'']
   \<and> keys (cache (snd (ProxyServer_handle_client (answering_env ''ok'') ''GET /5 HTTP/1.1''
                       (run fresh_proxy ten_requests))))
       = [''/1'', ''/2'', ''/3'', ''/4'', ''/5'', ''/6'', ''/7'', ''/8'', ''/9'']"
proof -
  let ?e = "answering_env ''ok''"
  have c: "cache (run fresh_proxy three_requests) = [(''/0'', ''_0''), (''/1'', ''_1'')]"
    by (simp add: three_requests_def eval_defs)
  have v: "validated ''GET /0 HTTP/1.1'' (run fresh_proxy three_requests)
             = Some (''/0'', ''HTTP/1.1'')"
    by (simp add: validated_def text_defs strip_scheme_def startswith_def valid_uri_def
        py_int_def strip_def is_digit_def digit_val_def slice_from_def cached_odd_def
        dict_get_def c)
  have nf: "\<not> is_cache_full (run fresh_proxy three_requests)"
    by (simp add: is_cache_full_def c CACHE_SIZE_LIMIT_def)
  have full: "is_cache_full (run fresh_proxy ten_requests)"
    by (simp add: is_cache_full_def ten_cache CACHE_SIZE_LIMIT_def)
  have io: "upstream ?e rq = Response ''ok''" "writable ?e pth" for rq pth
    by (simp_all add: answering_env_def)
  note t3 = eviction_is_fifo [where h = "''localhost''" and p = 8080 and fs = Map.empty
      and hist = three_requests and s = "run fresh_proxy three_requests" and oldest = "''/0''"
      and name = "''_0''" and others = "[(''/1'', ''_1'')]" and uri = "''/0''"
      and request = "''GET /0 HTTP/1.1''" and version = "''HTTP/1.1''" and e = ?e
      and response = "''ok''", folded fresh_proxy_def, THEN conjunct2]
  note t10a = eviction_is_fifo [where h = "''localhost''" and p = 8080 and fs = Map.empty
      and hist = ten_requests and s = "run fresh_proxy ten_requests" and oldest = "''/0''"
      and name = "''_0''" and e = ?e and version = "''HTTP/1.1''" and response = "''ok''"
      and uri = "''/0''" and request = "''GET /0 HTTP/1.1''"
      and others = "[(''/1'',''_1''), (''/2'',''_2''), (''/3'',''_3''), (''/4'',''_4''),
                     (''/5'',''_5''), (''/6'',''_6''), (''/7'',''_7''), (''/8'',''_8''),
                     (''/9'',''_9'')]",
      folded fresh_proxy_def, THEN conjunct2]
  note t10b = eviction_is_fifo [where h = "''localhost''" and p = 8080 and fs = Map.empty
      and hist = ten_requests and s = "run fresh_proxy ten_requests" and oldest = "''/0''"
      and name = "''_0''" and e = ?e and version = "''HTTP/1.1''" and response = "''ok''"
      and uri = "''/5''" and request = "''GET /5 HTTP/1.1''"
      and others = "[(''/1'',''_1''), (''/2'',''_2''), (''/3'',''_3''), (''/4'',''_4''),
                     (''/5'',''_5''), (''/6'',''_6''), (''/7'',''_7''), (''/8'',''_8''),
                     (''/9'',''_9'')]",
      folded fresh_proxy_def, THEN conjunct2]
  have 1: "cache (evict_cache (run fresh_proxy three_requests)) = [(''/1'', ''_1'')]
     \<and> inserted_at fresh_proxy three_requests ''/0'' < inserted_at fresh_proxy three_requests ''/1''
     \<and> keys (cache (store ''/0'' ''ok'' (run fresh_proxy three_requests)))
         = keys (cache (run fresh_proxy three_requests))
     \<and> keys (cache (snd (ProxyServer_handle_client ?e ''GET /0 HTTP/1.1''
                       (run fresh_proxy three_requests))))
         = [''/0'', ''/1'']"
    using t3 c v nf io by (simp add: keys_def)
  have 2: "keys (cache (snd (ProxyServer_handle_client ?e ''GET /0 HTTP/1.1''
                       (run fresh_proxy ten_requests))))
       = [''/1'', ''/2'', ''/3'', ''/4'', ''/5'', ''/6'', ''/7'', ''/8'', ''/9'', ''/0'']"
    using t10a ten_cache ten_validated(1) full io by (simp add: keys_def)
  have 3: "keys (cache (snd (ProxyServer_handle_client ?e ''GET /5 HTTP/1.1''
                       (run fresh_proxy ten_requests))))
       = [''/1'', ''/2'', ''/3'', ''/4'', ''/5'', ''/6'', ''/7'', ''/8'', ''/9'']"
    using t10b ten_cache ten_validated(2) full io by (simp add: keys_def)
  have 4: "keys (cache (store ''/0'' ''new'' (run fresh_proxy three_requests)))
       = keys (cache (run fresh_proxy three_requests))"
    using eviction_is_fifo [where h = "''localhost''" and p = 8080 and fs = Map.empty
      and hist = three_requests and s = "run fresh_proxy three_requests" and oldest = "''/0''"
      and name = "''_0''" and others = "[(''/1'', ''_1'')]" and uri = "''/0''"
      and response = "''new''", folded fresh_proxy_def, THEN conjunct2] c
    by (simp add: keys_def)
  from c 1 2 3 4 show ?thesis
    by simp
qed

end
